theory Spec2Isabelle
  imports Main "HOL-Library.Word"
begin

unbundle bit_operations_syntax

section \<open>Data model of \<^verbatim>\<open>mjpeg_creator.cpp\<close>\<close>

text \<open>
  A frame is a \<^verbatim>\<open>std::vector<uint8_t>\<close>: a list of bytes. Sizes and loop indices are
  \<^verbatim>\<open>size_t\<close>, taken as 64 bits wide, so that \<^verbatim>\<open>size() - 8\<close> wraps around as it does in
  the program; the picture dimensions are \<^verbatim>\<open>uint32_t\<close>.
\<close>

type_synonym byte = "8 word"
type_synonym size_t = "64 word"
type_synonym uint32_t = "32 word"

text \<open>
  The ways a call can fail to return normally. \<^verbatim>\<open>operator[]\<close> of a vector at an
  index that is not below \<^verbatim>\<open>size()\<close> is undefined behaviour in C++; the model makes
  it the outcome \<open>OutOfBounds\<close>. The constructor throws when the output file
  cannot be opened.
\<close>

datatype error = OutOfBounds | CouldNotOpenOutput

text \<open>\<^verbatim>\<open>data.size()\<close>: the length as a \<^verbatim>\<open>size_t\<close>.\<close>

definition vsize :: "byte list \<Rightarrow> size_t" where
  "vsize data = word_of_nat (length data)"

text \<open>\<^verbatim>\<open>data[i]\<close> for a \<^verbatim>\<open>size_t\<close> index \<open>i\<close>.\<close>

definition vat :: "byte list \<Rightarrow> size_t \<Rightarrow> error + byte" where
  "vat data i = (if unat i < length data then Inr (data ! unat i) else Inl OutOfBounds)"

text \<open>
  The fields of class \<^verbatim>\<open>MJPEGWriter\<close>. \<open>output_stream\<close> stands for the member
  \<^verbatim>\<open>output\<close>: the bytes written to the output file so far. The record also carries
  \<open>cerr\<close>, the lines that \<^verbatim>\<open>addFrame\<close> has written to \<^verbatim>\<open>std::cerr\<close>, which is the only
  place where the code says why a frame was rejected.
\<close>

record MJPEGWriter =
  output_stream :: "byte list"
  first_frame :: bool
  width :: uint32_t
  height :: uint32_t
  cerr :: "string list"

section \<open>\<^verbatim>\<open>JPEGValidator::isValidJPEG\<close>\<close>

text \<open>
  The four reads are guarded by the size test, so they are in range and
  \<^verbatim>\<open>size() - 2\<close>, \<^verbatim>\<open>size() - 1\<close> do not wrap.
\<close>

definition isValidJPEG :: "byte list \<Rightarrow> bool" where
  "isValidJPEG data =
     (if length data < 4 then False
      else if data ! 0 \<noteq> 0xFF \<or> data ! 1 \<noteq> 0xD8 then False
      else if data ! (length data - 2) \<noteq> 0xFF \<or> data ! (length data - 1) \<noteq> 0xD9 then False
      else True)"

section \<open>\<^verbatim>\<open>MJPEGWriter::validateDimensions\<close>\<close>

text \<open>
  The two locals computed at a match at index \<open>i\<close>:
  \<^verbatim>\<open>frame_height = (jpeg_data[i+5] << 8) | jpeg_data[i+6]\<close> and
  \<^verbatim>\<open>frame_width = (jpeg_data[i+7] << 8) | jpeg_data[i+8]\<close>, returned as
  \<open>(frame_width, frame_height)\<close>. The index sums are \<^verbatim>\<open>size_t\<close> arithmetic. Each byte
  is promoted to \<^verbatim>\<open>int\<close> before the shift, so the value is below \<open>2 ^ 16\<close> and its
  conversion to \<^verbatim>\<open>uint32_t\<close> changes nothing. Every read out of range is the same
  outcome, so the order in which the four bytes are read does not matter.
\<close>

definition be16 :: "byte \<Rightarrow> byte \<Rightarrow> uint32_t" where
  "be16 hi lo = push_bit 8 (ucast hi) OR ucast lo"

definition frame_dims :: "byte list \<Rightarrow> size_t \<Rightarrow> error + (uint32_t \<times> uint32_t)" where
  "frame_dims jpeg_data i =
     (case vat jpeg_data (i + 5) of Inl e \<Rightarrow> Inl e | Inr h1 \<Rightarrow>
     (case vat jpeg_data (i + 6) of Inl e \<Rightarrow> Inl e | Inr h2 \<Rightarrow>
     (case vat jpeg_data (i + 7) of Inl e \<Rightarrow> Inl e | Inr w1 \<Rightarrow>
     (case vat jpeg_data (i + 8) of Inl e \<Rightarrow> Inl e | Inr w2 \<Rightarrow>
        Inr (be16 w1 w2, be16 h1 h2)))))"

text \<open>
  The loop \<^verbatim>\<open>for (size_t i = 0; i < jpeg_data.size() - 8; i++)\<close> from index \<open>i\<close>
  on, with \<open>bound\<close> the value of \<^verbatim>\<open>jpeg_data.size() - 8\<close>. The test
  \<^verbatim>\<open>jpeg_data[i] == 0xFF && jpeg_data[i+1] == 0xC0\<close> reads the second byte only
  when the first one is \<^verbatim>\<open>0xFF\<close>. The result is \<open>Some\<close> of the two locals at the
  first match, \<open>None\<close> when the loop runs to its bound.
\<close>

function scan :: "byte list \<Rightarrow> size_t \<Rightarrow> size_t \<Rightarrow> error + (uint32_t \<times> uint32_t) option" where
  "scan jpeg_data bound i =
     (if i < bound then
        (case vat jpeg_data i of
           Inl e \<Rightarrow> Inl e
         | Inr b0 \<Rightarrow>
             if b0 = 0xFF then
               (case vat jpeg_data (i + 1) of
                  Inl e \<Rightarrow> Inl e
                | Inr b1 \<Rightarrow>
                    if b1 = 0xC0 then
                      (case frame_dims jpeg_data i of
                         Inl e \<Rightarrow> Inl e
                       | Inr dims \<Rightarrow> Inr (Some dims))
                    else scan jpeg_data bound (i + 1))
             else scan jpeg_data bound (i + 1))
      else Inr None)"
  by pat_completeness auto
termination
proof (relation "measure (\<lambda>(jpeg_data, bound, i). unat bound - unat i)")
  show "wf (measure (\<lambda>(jpeg_data, bound, i). unat bound - unat i))"
    by simp
next
  fix jpeg_data :: "byte list" and bound i :: size_t
  assume "i < bound"
  then have less: "unat i < unat bound"
    by (simp add: word_less_nat_alt)
  moreover have "unat bound < 2 ^ 64"
    using unsigned_less [of bound] by simp
  ultimately have "unat i + unat (1 :: size_t) < 2 ^ LENGTH(64)"
    by simp
  then have "unat (i + 1) = unat i + unat (1 :: size_t)"
    by (rule unat_add_lem [THEN iffD1])
  with less have dec: "((jpeg_data, bound, i + 1), jpeg_data, bound, i)
      \<in> measure (\<lambda>(jpeg_data, bound, i). unat bound - unat i)"
    by simp
  show "((jpeg_data, bound, i + 1), jpeg_data, bound, i)
      \<in> measure (\<lambda>(jpeg_data, bound, i). unat bound - unat i)"
    by (rule dec)
  show "((jpeg_data, bound, i + 1), jpeg_data, bound, i)
      \<in> measure (\<lambda>(jpeg_data, bound, i). unat bound - unat i)"
    by (rule dec)
qed

declare scan.simps [simp del]

text \<open>
  The whole member function: the scan with the wrapping bound
  \<^verbatim>\<open>jpeg_data.size() - 8\<close>, then the update of the writer at a match. The result
  pairs the returned \<^verbatim>\<open>bool\<close> with the writer afterwards.
\<close>

definition validateDimensions :: "MJPEGWriter \<Rightarrow> byte list \<Rightarrow> error + (bool \<times> MJPEGWriter)" where
  "validateDimensions w jpeg_data =
     (case scan jpeg_data (vsize jpeg_data - 8) 0 of
        Inl e \<Rightarrow> Inl e
      | Inr None \<Rightarrow> Inr (False, w)
      | Inr (Some (frame_width, frame_height)) \<Rightarrow>
          if first_frame w then
            Inr (True, w\<lparr>first_frame := False, width := frame_width, height := frame_height\<rparr>)
          else Inr (frame_width = width w \<and> frame_height = height w, w))"

section \<open>The public members of \<^verbatim>\<open>MJPEGWriter\<close>\<close>

text \<open>
  The writer that the constructor's initialiser list builds, over a file just opened
  (and so empty).
\<close>

definition fresh :: MJPEGWriter where
  "fresh = \<lparr>output_stream = [], first_frame = True, width = 0, height = 0, cerr = []\<rparr>"

text \<open>
  The constructor: \<open>opened\<close> says whether \<^verbatim>\<open>output.open\<close> succeeded; if not, it throws.
\<close>

definition new_MJPEGWriter :: "bool \<Rightarrow> error + MJPEGWriter" where
  "new_MJPEGWriter opened = (if \<not> opened then Inl CouldNotOpenOutput else Inr fresh)"

text \<open>
  \<^verbatim>\<open>addFrame\<close>. The code does not test the stream after \<^verbatim>\<open>output.write\<close>; the model takes
  the write to append all the bytes of the buffer.
\<close>

definition addFrame :: "MJPEGWriter \<Rightarrow> byte list \<Rightarrow> error + (bool \<times> MJPEGWriter)" where
  "addFrame w jpeg_data =
     (if \<not> isValidJPEG jpeg_data then
        Inr (False, w\<lparr>cerr := cerr w @ [''Invalid JPEG data detected'']\<rparr>)
      else
        (case validateDimensions w jpeg_data of
           Inl e \<Rightarrow> Inl e
         | Inr (ok, w') \<Rightarrow>
             if \<not> ok then
               Inr (False, w'\<lparr>cerr := cerr w' @ [''Frame dimensions mismatch or SOF0 marker not found'']\<rparr>)
             else Inr (True, w'\<lparr>output_stream := output_stream w' @ jpeg_data\<rparr>)))"

definition getDimensions :: "MJPEGWriter \<Rightarrow> uint32_t \<times> uint32_t" where
  "getDimensions w = (width w, height w)"

text \<open>
  The calls of \<^verbatim>\<open>addFrame\<close> made by the loop of \<^verbatim>\<open>main\<close> over the buffers read, in
  order, with the \<^verbatim>\<open>bool\<close> each call returned. (The loop counts the \<open>True\<close> ones
  in \<^verbatim>\<open>processed\<close>.)
\<close>

fun addFrames :: "MJPEGWriter \<Rightarrow> byte list list \<Rightarrow> error + (bool list \<times> MJPEGWriter)" where
  "addFrames w [] = Inr ([], w)"
| "addFrames w (f # fs) =
     (case addFrame w f of
        Inl e \<Rightarrow> Inl e
      | Inr (ok, w') \<Rightarrow>
          (case addFrames w' fs of
             Inl e \<Rightarrow> Inl e
           | Inr (oks, w'') \<Rightarrow> Inr (ok # oks, w'')))"

section \<open>Notions used to state the properties\<close>

text \<open>
  The loop's test at offset \<open>j\<close> of a buffer, for an offset whose two bytes are in
  range: the bytes \<^verbatim>\<open>0xFF 0xC0\<close> of the SOF0 marker stand at \<open>j\<close> and \<open>j + 1\<close>.
\<close>

definition is_SOF0 :: "byte list \<Rightarrow> nat \<Rightarrow> bool" where
  "is_SOF0 v j = (v ! j = 0xFF \<and> v ! (j + 1) = 0xC0)"

text \<open>
  Example buffers. The first three carry an SOF0 segment at offset 2 (marker, length
  field, precision byte, height, width); the height is at offsets 7 and 8, the width at
  offsets 9 and 10.
\<close>

definition frame_640x480 :: "byte list" where
  "frame_640x480 =
     [0xFF, 0xD8, 0xFF, 0xC0, 0x00, 0x0B, 0x08, 0x01, 0xE0, 0x02, 0x80, 0xFF, 0xD9]"

definition frame_320x240 :: "byte list" where
  "frame_320x240 =
     [0xFF, 0xD8, 0xFF, 0xC0, 0x00, 0x0B, 0x08, 0x00, 0xF0, 0x01, 0x40, 0xFF, 0xD9]"

definition frame_0x0 :: "byte list" where
  "frame_0x0 =
     [0xFF, 0xD8, 0xFF, 0xC0, 0x00, 0x0B, 0x08, 0x00, 0x00, 0x00, 0x00, 0xFF, 0xD9]"

text \<open>A second 640 by 480 frame, one byte longer than the first.\<close>

definition frame_640x480_b :: "byte list" where
  "frame_640x480_b =
     [0xFF, 0xD8, 0xFF, 0xC0, 0x00, 0x0B, 0x08, 0x01, 0xE0, 0x02, 0x80, 0x55, 0xFF, 0xD9]"

text \<open>Start and end codes around six zero bytes: no SOF0 marker anywhere.\<close>

definition frame_no_marker :: "byte list" where
  "frame_no_marker = [0xFF, 0xD8, 0x00, 0x00, 0x00, 0x00, 0x00, 0x00, 0xFF, 0xD9]"

text \<open>The empty-payload frame: the start code directly followed by the end code.\<close>

definition frame_empty_payload :: "byte list" where
  "frame_empty_payload = [0xFF, 0xD8, 0xFF, 0xD9]"

text \<open>A buffer without start and end codes.\<close>

definition not_a_frame :: "byte list" where
  "not_a_frame = [0x12, 0x34, 0x56, 0x78, 0x9A]"

text \<open>A writer whose reference dimensions are 640 by 480, with nothing written yet.\<close>

definition writer_640x480 :: MJPEGWriter where
  "writer_640x480 = fresh\<lparr>first_frame := False, width := 640, height := 480\<rparr>"

section \<open>Arithmetic of \<^verbatim>\<open>size_t\<close> indices\<close>

lemma unat_succ_below: "(i :: size_t) < bound \<Longrightarrow> unat (i + 1) = unat i + 1"
proof -
  assume "i < bound"
  then have "unat i < unat bound"
    by (simp add: word_less_nat_alt)
  moreover have "unat bound < 2 ^ 64"
    using unsigned_less [of bound] by simp
  ultimately have "unat i + unat (1 :: size_t) < 2 ^ LENGTH(64)"
    by simp
  then have "unat (i + 1) = unat i + unat (1 :: size_t)"
    by (rule unat_add_lem [THEN iffD1])
  then show ?thesis by simp
qed

lemma unat_plus_le: "unat (i + k) \<le> unat i + unat (k :: size_t)"
  by (simp add: unat_word_ariths)

lemma vat_in_range: "unat i < length v \<Longrightarrow> vat v i = Inr (v ! unat i)"
  by (simp add: vat_def)

lemma vat_plus_in_range:
  assumes "unat i + unat k < length v"
  shows "vat v (i + k) = Inr (v ! unat (i + k))"
  using assms unat_plus_le [of i k] by (simp add: vat_def)

lemma frame_dims_in_range:
  assumes "unat i + 8 < length v"
  shows "\<exists>d. frame_dims v i = Inr d"
proof -
  have "vat v (i + 5) = Inr (v ! unat (i + 5))" "vat v (i + 6) = Inr (v ! unat (i + 6))"
    "vat v (i + 7) = Inr (v ! unat (i + 7))" "vat v (i + 8) = Inr (v ! unat (i + 8))"
    using assms by (simp_all add: vat_plus_in_range)
  then show ?thesis by (simp add: frame_dims_def)
qed

lemma scan_in_range:
  "unat bound + 8 \<le> length v \<Longrightarrow> \<exists>r. scan v bound i = Inr r"
proof (induction v bound i rule: scan.induct)
  case (1 v bound i)
  show ?case
  proof (cases "i < bound")
    case False
    then show ?thesis by (simp add: scan.simps)
  next
    case True
    then have lt: "unat i < unat bound" by (simp add: word_less_nat_alt)
    with "1.prems" have r0: "vat v i = Inr (v ! unat i)" by (simp add: vat_in_range)
    from lt "1.prems" have r1: "vat v (i + 1) = Inr (v ! unat (i + 1))"
      by (simp add: vat_plus_in_range)
    from lt "1.prems" obtain d where d: "frame_dims v i = Inr d"
      using frame_dims_in_range [of i v] by auto
    show ?thesis
    proof (cases "v ! unat i = 0xFF")
      case ff: True
      show ?thesis
      proof (cases "v ! unat (i + 1) = 0xC0")
        case True
        with True ff r0 r1 d \<open>i < bound\<close> show ?thesis
          by (subst scan.simps) simp
      next
        case False
        with "1.IH"(1) [OF \<open>i < bound\<close> r0 ff r1 False "1.prems"] ff r0 r1 \<open>i < bound\<close>
        show ?thesis by (subst scan.simps) simp
      qed
    next
      case False
      with "1.IH"(2) [OF \<open>i < bound\<close> r0 False "1.prems"] r0 \<open>i < bound\<close>
      show ?thesis by (subst scan.simps) simp
    qed
  qed
qed

lemma unat_bound:
  "unat (vsize v - 8) =
     (if 8 \<le> length v mod 2 ^ 64 then length v mod 2 ^ 64 - 8
      else length v mod 2 ^ 64 + 2 ^ 64 - 8)"
  by (simp add: vsize_def unat_sub_if' unat_of_nat)

lemma unat_bound_long:
  "8 \<le> length v \<Longrightarrow> length v < 2 ^ 64 \<Longrightarrow> unat (vsize v - 8) = length v - 8"
  by (simp add: unat_bound)

lemma unat_bound_le:
  assumes "8 \<le> length v"
  shows "unat (vsize v - 8) + 8 \<le> length v"
proof -
  have "(word_of_nat (length v) - 8 :: size_t) = word_of_nat (length v - 8)"
    using assms by simp
  then have "unat (vsize v - 8) \<le> length v - 8"
    by (simp add: vsize_def unat_of_nat)
  with assms show ?thesis by simp
qed

lemma unat_bound_short:
  "length v < 8 \<Longrightarrow> unat (vsize v - 8) = length v + 2 ^ 64 - 8"
  by (simp add: unat_bound)

lemma scan_end: "\<not> i < bound \<Longrightarrow> scan v bound i = Inr None"
  by (simp add: scan.simps)

lemma scan_oob: "i < bound \<Longrightarrow> length v \<le> unat i \<Longrightarrow> scan v bound i = Inl OutOfBounds"
  by (subst scan.simps) (simp add: vat_def)

lemma scan_skip_first:
  "i < bound \<Longrightarrow> unat i < length v \<Longrightarrow> v ! unat i \<noteq> 0xFF \<Longrightarrow>
     scan v bound i = scan v bound (i + 1)"
  by (subst scan.simps) (simp add: vat_def)

lemma scan_skip_second:
  assumes "i < bound" "unat i + 1 < length v" "v ! (unat i + 1) \<noteq> 0xC0"
  shows "scan v bound i = scan v bound (i + 1)"
proof -
  have "unat (i + 1) = unat i + 1"
    using assms(1) by (rule unat_succ_below)
  with assms show ?thesis
    by (subst scan.simps) (simp add: vat_def)
qed

lemma scan_skip:
  "i < bound \<Longrightarrow> unat i + 1 < length v \<Longrightarrow> \<not> is_SOF0 v (unat i) \<Longrightarrow>
     scan v bound i = scan v bound (i + 1)"
  using scan_skip_first [of i bound v] scan_skip_second [of i bound v]
  by (auto simp add: is_SOF0_def)

lemma scan_match:
  assumes "i < bound" "unat i + 1 < length v" "is_SOF0 v (unat i)"
  shows "scan v bound i = (case frame_dims v i of Inl e \<Rightarrow> Inl e | Inr d \<Rightarrow> Inr (Some d))"
proof -
  have "unat (i + 1) = unat i + 1"
    using assms(1) by (rule unat_succ_below)
  with assms show ?thesis
    by (subst scan.simps) (simp add: vat_def is_SOF0_def)
qed

lemma of_nat_below:
  assumes "k < unat (bound :: size_t)"
  shows "(word_of_nat k :: size_t) < bound" and "unat (word_of_nat k :: size_t) = k"
    and "(word_of_nat k + 1 :: size_t) = word_of_nat (Suc k)"
proof -
  have "unat bound < 2 ^ 64"
    using unsigned_less [of bound] by simp
  with assms have "k < 2 ^ 64" by simp
  then show u: "unat (word_of_nat k :: size_t) = k"
    by (simp add: unat_of_nat)
  with assms show "(word_of_nat k :: size_t) < bound"
    by (simp add: word_less_nat_alt)
  show "(word_of_nat k + 1 :: size_t) = word_of_nat (Suc k)"
    by simp
qed

lemma scan_first_match:
  assumes "k \<le> n" "n < unat bound" "n + 1 < length v" "is_SOF0 v n"
    "\<forall>j. k \<le> j \<and> j < n \<longrightarrow> \<not> is_SOF0 v j"
  shows "scan v bound (word_of_nat k) = (case frame_dims v (word_of_nat n) of Inl e \<Rightarrow> Inl e | Inr d \<Rightarrow> Inr (Some d))"
  using assms(1,5)
proof (induction rule: inc_induct)
  case base
  show ?case
    using assms(2-4) of_nat_below [of n bound] by (simp add: scan_match)
next
  case (step m)
  from step.hyps assms(2) have m: "m < unat bound" by simp
  have "scan v bound (word_of_nat m) = scan v bound (word_of_nat m + 1)"
    using step.hyps step.prems assms(3) of_nat_below [OF m] by (simp add: scan_skip)
  also have "\<dots> = scan v bound (word_of_nat (Suc m))"
    by (simp add: add.commute)
  also have "\<dots> = (case frame_dims v (word_of_nat n) of Inl e \<Rightarrow> Inl e | Inr d \<Rightarrow> Inr (Some d))"
    using step.prems by (intro step.IH) simp
  finally show ?case .
qed

lemma scan_no_match:
  assumes "k \<le> unat bound" "unat bound + 1 \<le> length v \<or> unat bound = 0"
    "\<forall>j. k \<le> j \<and> j < unat bound \<longrightarrow> \<not> is_SOF0 v j"
  shows "scan v bound (word_of_nat k) = Inr None"
  using assms(1,3)
proof (induction rule: inc_induct)
  case base
  have "\<not> (word_of_nat (unat bound) :: size_t) < bound" by simp
  then show ?case by (rule scan_end)
next
  case (step m)
  from step.hyps have m: "m < unat bound" by simp
  have "scan v bound (word_of_nat m) = scan v bound (word_of_nat m + 1)"
    using step.hyps step.prems assms(2) of_nat_below [OF m] by (simp add: scan_skip)
  also have "\<dots> = scan v bound (word_of_nat (Suc m))"
    by (simp add: add.commute)
  also have "\<dots> = Inr None"
    using step.prems by (intro step.IH) simp
  finally show ?case .
qed

lemma unat_be16: "unat (be16 hi lo) = unat hi * 256 + unat lo"
proof -
  have lo: "unat lo < 256" and hi: "unat hi < 256"
    using unsigned_less [of lo] unsigned_less [of hi] by simp_all
  have eq: "(push_bit 8 (ucast hi) OR ucast lo :: uint32_t) = push_bit 8 (ucast hi) + ucast lo"
    by (rule disjunctive_add [symmetric])
      (auto simp add: bit_push_bit_iff bit_unsigned_iff dest: bit_imp_le_length)
  have a: "unat (ucast lo :: uint32_t) = unat lo" and b: "unat (ucast hi :: uint32_t) = unat hi"
    using lo hi by (simp_all add: unsigned_ucast_eq take_bit_nat_eq_self)
  have "unat (ucast hi :: uint32_t) * unat (256 :: uint32_t) < 2 ^ LENGTH(32)"
    using hi by (simp add: b)
  then have "unat (ucast hi * 256 :: uint32_t) = unat (ucast hi :: uint32_t) * unat (256 :: uint32_t)"
    by (rule unat_mult_lem [THEN iffD1])
  then have c: "unat (push_bit 8 (ucast hi) :: uint32_t) = unat hi * 256"
    by (simp add: push_bit_eq_mult b)
  have "unat (push_bit 8 (ucast hi) :: uint32_t) + unat (ucast lo :: uint32_t) < 2 ^ LENGTH(32)"
    using lo hi by (simp add: a c)
  then have "unat (push_bit 8 (ucast hi) + ucast lo :: uint32_t) =
      unat (push_bit 8 (ucast hi) :: uint32_t) + unat (ucast lo :: uint32_t)"
    by (rule unat_add_lem [THEN iffD1])
  then show ?thesis by (simp only: be16_def eq a c)
qed

lemma unat_of_nat_plus:
  assumes "n + k < 2 ^ 64"
  shows "unat (word_of_nat n + word_of_nat k :: size_t) = n + k"
proof -
  have "(word_of_nat n + word_of_nat k :: size_t) = word_of_nat (n + k)" by simp
  with assms show ?thesis by (simp only: unat_of_nat) simp
qed

lemma frame_dims_value:
  assumes "n + 8 < length v" "length v < 2 ^ 64"
  shows "frame_dims v (word_of_nat n) =
     Inr (be16 (v ! (n + 7)) (v ! (n + 8)), be16 (v ! (n + 5)) (v ! (n + 6)))"
proof -
  have "unat (word_of_nat n + 5 :: size_t) = n + 5" "unat (word_of_nat n + 6 :: size_t) = n + 6"
    "unat (word_of_nat n + 7 :: size_t) = n + 7" "unat (word_of_nat n + 8 :: size_t) = n + 8"
    using assms unat_of_nat_plus [of n 5] unat_of_nat_plus [of n 6]
      unat_of_nat_plus [of n 7] unat_of_nat_plus [of n 8]
    by simp_all
  with assms show ?thesis
    by (simp add: frame_dims_def vat_def)
qed

lemma scan_short_out_of_bounds:
  assumes "length v < 8" "v \<noteq> []" "v ! (length v - 1) \<noteq> 0xFF" "length v < unat bound"
    and "k \<le> length v"
    and "\<forall>j. k \<le> j \<and> j + 1 < length v \<and> is_SOF0 v j \<longrightarrow> length v \<le> j + 5"
  shows "scan v bound (word_of_nat k) = Inl OutOfBounds"
  using assms(5,6)
proof (induction rule: inc_induct)
  case base
  show ?case
    using assms(4) of_nat_below [of "length v" bound] by (simp add: scan_oob)
next
  case (step m)
  from step.hyps assms(4) have m: "m < unat bound" by simp
  note wm = of_nat_below [OF m]
  have next_oob: "scan v bound (word_of_nat m + 1) = Inl OutOfBounds"
  proof -
    have "scan v bound (word_of_nat m + 1) = scan v bound (word_of_nat (Suc m))"
      by (simp add: add.commute)
    also have "\<dots> = Inl OutOfBounds"
      using step.prems by (intro step.IH) simp
    finally show ?thesis .
  qed
  show ?case
  proof (cases "v ! m = 0xFF")
    case False
    with step.hyps wm have "scan v bound (word_of_nat m) = scan v bound (word_of_nat m + 1)"
      by (simp add: scan_skip_first)
    with next_oob show ?thesis by simp
  next
    case True
    with assms(3) step.hyps have m1: "m + 1 < length v"
      by (cases "m = length v - 1") auto
    show ?thesis
    proof (cases "v ! (m + 1) = 0xC0")
      case False
      with m1 wm have "scan v bound (word_of_nat m) = scan v bound (word_of_nat m + 1)"
        by (simp add: scan_skip_second)
      with next_oob show ?thesis by simp
    next
      case c0: True
      with True have sof: "is_SOF0 v m" by (simp add: is_SOF0_def)
      with step.prems m1 have far: "length v \<le> m + 5" by simp
      from m1 assms(1) have "m + 5 < 2 ^ 64" by simp
      then have "unat (word_of_nat m + 5 :: size_t) = m + 5"
        using unat_of_nat_plus [of m 5] by simp
      with far have "frame_dims v (word_of_nat m) = Inl OutOfBounds"
        by (simp add: frame_dims_def vat_def)
      moreover have "scan v bound (word_of_nat m) =
          (case frame_dims v (word_of_nat m) of Inl e \<Rightarrow> Inl e | Inr d \<Rightarrow> Inr (Some d))"
        using sof m1 wm by (simp add: scan_match)
      ultimately show ?thesis by simp
    qed
  qed
qed

lemma scan_short_frame:
  assumes "isValidJPEG v" "length v < 8"
  shows "scan v (vsize v - 8) 0 = Inl OutOfBounds"
proof -
  from assms(1) have len: "4 \<le> length v" and b0: "v ! 0 = 0xFF" and b1: "v ! 1 = 0xD8"
    and e1: "v ! (length v - 1) = 0xD9"
    by (auto simp add: isValidJPEG_def split: if_splits)
  have "\<not> is_SOF0 v 0" "\<not> is_SOF0 v 1"
    using b1 by (simp_all add: is_SOF0_def)
  then have "is_SOF0 v j \<Longrightarrow> 2 \<le> j" for j
    by (cases j) (auto simp add: less_Suc_eq_le numeral_2_eq_2 Suc_le_eq intro: ccontr)
  then have far: "\<forall>j. 0 \<le> j \<and> j + 1 < length v \<and> is_SOF0 v j \<longrightarrow> length v \<le> j + 5"
    using assms(2) by fastforce
  have "scan v (vsize v - 8) (word_of_nat 0) = Inl OutOfBounds"
    using assms(2) len e1 far
    by (intro scan_short_out_of_bounds) (auto simp add: unat_bound_short)
  then show ?thesis by simp
qed

section \<open>Single calls and runs of \<^verbatim>\<open>addFrame\<close>\<close>

lemma validateDimensions_returns:
  assumes "8 \<le> length v"
  shows "\<exists>ok w'. validateDimensions w v = Inr (ok, w')"
proof -
  from assms have "unat (vsize v - 8) + 8 \<le> length v"
    by (rule unat_bound_le)
  then obtain r where "scan v (vsize v - 8) 0 = Inr r"
    using scan_in_range by blast
  then show ?thesis
    by (cases r) (auto simp add: validateDimensions_def)
qed

lemma addFrame_returns:
  assumes "isValidJPEG v \<longrightarrow> 8 \<le> length v"
  shows "\<exists>ok w'. addFrame w v = Inr (ok, w')"
proof (cases "isValidJPEG v")
  case False
  then show ?thesis by (auto simp add: addFrame_def)
next
  case True
  with assms obtain ok w' where "validateDimensions w v = Inr (ok, w')"
    using validateDimensions_returns by blast
  with True show ?thesis by (cases ok) (auto simp add: addFrame_def)
qed

lemma valid_frame_out_of_bounds_iff:
  assumes "isValidJPEG v"
  shows "validateDimensions w v = Inl OutOfBounds \<longleftrightarrow> length v < 8"
proof (cases "length v < 8")
  case True
  with assms show ?thesis
    by (simp add: validateDimensions_def scan_short_frame)
next
  case False
  then obtain ok w' where "validateDimensions w v = Inr (ok, w')"
    using validateDimensions_returns [of v w] by auto
  with False show ?thesis by simp
qed

lemma addFrame_no_marker:
  assumes "isValidJPEG v" "8 \<le> length v" "length v < 2 ^ 64"
    and "\<forall>j. j + 8 < length v \<longrightarrow> \<not> is_SOF0 v j"
  shows "addFrame w v =
    Inr (False, w\<lparr>cerr := cerr w @ [''Frame dimensions mismatch or SOF0 marker not found'']\<rparr>)"
proof -
  from assms(2,3) have bound: "unat (vsize v - 8) = length v - 8"
    by (simp add: unat_bound_long)
  have "scan v (vsize v - 8) (word_of_nat 0) = Inr None"
    using assms(2,4) bound by (intro scan_no_match) auto
  with assms(1) show ?thesis
    by (simp add: addFrame_def validateDimensions_def)
qed

lemma addFrame_output:
  "addFrame w v = Inr (ok, w') \<Longrightarrow>
     output_stream w' = (if ok then output_stream w @ v else output_stream w)"
  by (auto simp add: addFrame_def validateDimensions_def split: sum.splits option.splits if_splits)

lemma addFrame_rejected_keeps_writer:
  "addFrame w v = Inr (False, w') \<Longrightarrow>
     output_stream w' = output_stream w \<and> first_frame w' = first_frame w \<and>
     width w' = width w \<and> height w' = height w"
  by (auto simp add: addFrame_def validateDimensions_def split: sum.splits option.splits if_splits)

lemma addFrame_dimensions:
  "addFrame w v = Inr (ok, w') \<Longrightarrow>
     (if first_frame w then
        (if ok then \<not> first_frame w' \<and> scan v (vsize v - 8) 0 = Inr (Some (getDimensions w'))
         else first_frame w' \<and> getDimensions w' = getDimensions w)
      else \<not> first_frame w' \<and> getDimensions w' = getDimensions w)"
  by (auto simp add: addFrame_def validateDimensions_def getDimensions_def
      split: sum.splits option.splits if_splits)

lemma addFrames_Cons:
  "addFrames w (f # fs) = Inr (oks, w'') \<longleftrightarrow>
     (\<exists>ok w' oks'. addFrame w f = Inr (ok, w') \<and> addFrames w' fs = Inr (oks', w'') \<and>
        oks = ok # oks')"
  by (auto split: sum.splits)

lemma addFrames_returns:
  "\<forall>f\<in>set fs. isValidJPEG f \<longrightarrow> 8 \<le> length f \<Longrightarrow> \<exists>oks w'. addFrames w fs = Inr (oks, w')"
proof (induction fs arbitrary: w)
  case Nil
  show ?case by simp
next
  case (Cons f fs)
  then obtain ok w1 where 1: "addFrame w f = Inr (ok, w1)"
    using addFrame_returns [of f w] by auto
  from Cons obtain oks w2 where "addFrames w1 fs = Inr (oks, w2)"
    by fastforce
  with 1 show ?case by simp
qed

lemma addFrames_output:
  "addFrames w fs = Inr (oks, w') \<Longrightarrow>
     length oks = length fs \<and>
     output_stream w' = output_stream w @ concat (map fst (filter snd (zip fs oks)))"
proof (induction fs arbitrary: w oks)
  case Nil
  then show ?case by simp
next
  case (Cons f fs)
  from Cons.prems obtain ok w1 oks' where 1: "addFrame w f = Inr (ok, w1)"
    and 2: "addFrames w1 fs = Inr (oks', w')" and 3: "oks = ok # oks'"
    unfolding addFrames_Cons by blast
  from Cons.IH [OF 2] addFrame_output [OF 1] 3 show ?case
    by simp
qed

lemma scan_error_only:
  "scan v bound i = Inl e \<Longrightarrow> e = OutOfBounds"
proof (induction v bound i rule: scan.induct)
  case (1 v bound i)
  from "1.prems" show ?case
    by (subst (asm) scan.simps)
      (auto simp add: vat_def frame_dims_def split: if_splits sum.splits intro: "1.IH")
qed

lemma addFrame_error_only: "addFrame w v = Inl e \<Longrightarrow> e = OutOfBounds"
  by (auto simp add: addFrame_def validateDimensions_def
      split: if_splits sum.splits option.splits dest: scan_error_only)

lemma addFrame_short_frame:
  "isValidJPEG v \<Longrightarrow> length v < 8 \<Longrightarrow> addFrame w v = Inl OutOfBounds"
  by (simp add: addFrame_def validateDimensions_def scan_short_frame)

lemma addFrame_accepts:
  assumes "isValidJPEG v" and "scan v (vsize v - 8) 0 = Inr (Some (fw, fh))"
    and "first_frame w \<or> (fw = width w \<and> fh = height w)"
  shows "addFrame w v =
    Inr (True, w\<lparr>first_frame := False, width := fw, height := fh,
      output_stream := output_stream w @ v\<rparr>)"
  using assms by (cases w) (auto simp add: addFrame_def validateDimensions_def)

lemma same_dimension_frames_in_order:
  assumes "isValidJPEG f1" "isValidJPEG f2" "isValidJPEG f3"
    and "scan f1 (vsize f1 - 8) 0 = Inr (Some (fw, fh))"
    and "scan f2 (vsize f2 - 8) 0 = Inr (Some (fw, fh))"
    and "scan f3 (vsize f3 - 8) 0 = Inr (Some (fw, fh))"
  shows "addFrames fresh [f1, f2, f3] =
    Inr ([True, True, True],
      fresh\<lparr>first_frame := False, width := fw, height := fh, output_stream := f1 @ f2 @ f3\<rparr>)"
  using assms by (simp add: addFrame_def validateDimensions_def fresh_def)

lemma invalid_frame_between:
  assumes "isValidJPEG f1" "\<not> isValidJPEG f2" "isValidJPEG f3"
    and "scan f1 (vsize f1 - 8) 0 = Inr (Some (fw, fh))"
    and "scan f3 (vsize f3 - 8) 0 = Inr (Some (fw, fh))"
  shows "addFrames fresh [f1, f2, f3] =
    Inr ([True, False, True],
      fresh\<lparr>first_frame := False, width := fw, height := fh, output_stream := f1 @ f3,
        cerr := [''Invalid JPEG data detected'']\<rparr>)"
  using assms by (simp add: addFrame_def validateDimensions_def fresh_def)

lemma addFrames_dimensions:
  "addFrames w fs = Inr (oks, w') \<Longrightarrow>
     (if first_frame w then
        (case find snd (zip fs oks) of
           None \<Rightarrow> first_frame w' \<and> getDimensions w' = getDimensions w
         | Some (f, ok) \<Rightarrow>
             \<not> first_frame w' \<and> scan f (vsize f - 8) 0 = Inr (Some (getDimensions w')))
      else \<not> first_frame w' \<and> getDimensions w' = getDimensions w)"
proof (induction fs arbitrary: w oks)
  case Nil
  then show ?case by simp
next
  case (Cons f fs)
  from Cons.prems obtain ok w1 oks' where 1: "addFrame w f = Inr (ok, w1)"
    and 2: "addFrames w1 fs = Inr (oks', w')" and 3: "oks = ok # oks'"
    unfolding addFrames_Cons by blast
  note step = addFrame_dimensions [OF 1] and rest = Cons.IH [OF 2]
  show ?case
  proof (cases "first_frame w")
    case False
    with step rest show ?thesis by simp
  next
    case first: True
    show ?thesis
    proof (cases ok)
      case True
      with first step rest 3 show ?thesis by simp
    next
      case False
      with first step rest 3 show ?thesis by (auto split: option.splits)
    qed
  qed
qed

section \<open>The frame validator\<close>

text \<open>
  Claim C4. For every byte buffer, \<^verbatim>\<open>isValidJPEG\<close> returns true if and only if the
  buffer has at least 4 bytes, its first two bytes are \<^verbatim>\<open>0xFF 0xD8\<close> and its last two
  bytes are \<^verbatim>\<open>0xFF 0xD9\<close>. The result depends on nothing else: whatever bytes stand
  between a start code and an end code, the buffer is valid.
\<close>

theorem isValidJPEG_boundary_bytes:
  "(isValidJPEG data \<longleftrightarrow>
      4 \<le> length data \<and> data ! 0 = 0xFF \<and> data ! 1 = 0xD8 \<and>
      data ! (length data - 2) = 0xFF \<and> data ! (length data - 1) = 0xD9) \<and>
   isValidJPEG (0xFF # 0xD8 # interior @ [0xFF, 0xD9])"
proof
  show "isValidJPEG data \<longleftrightarrow>
      4 \<le> length data \<and> data ! 0 = 0xFF \<and> data ! 1 = 0xD8 \<and>
      data ! (length data - 2) = 0xFF \<and> data ! (length data - 1) = 0xD9"
    by (auto simp add: isValidJPEG_def)
  show "isValidJPEG (0xFF # 0xD8 # interior @ [0xFF, 0xD9])"
    by (simp add: isValidJPEG_def nth_append)
qed

theorem isValidJPEG_boundary_bytes_witness:
  "isValidJPEG frame_empty_payload \<and> \<not> isValidJPEG [0xFF, 0xD8, 0xD9] \<and>
   \<not> isValidJPEG not_a_frame \<and>
   \<not> isValidJPEG [0xFF, 0xD8, 0x00, 0xFF, 0xD8] \<and>
   isValidJPEG (0xFF # 0xD8 # [0x01, 0xFF, 0xC0, 0x02] @ [0xFF, 0xD9])"
  using isValidJPEG_boundary_bytes [of frame_empty_payload "[]"]
    isValidJPEG_boundary_bytes [of "[0xFF, 0xD8, 0xD9]" "[]"]
    isValidJPEG_boundary_bytes [of not_a_frame "[]"]
    isValidJPEG_boundary_bytes [of "[0xFF, 0xD8, 0x00, 0xFF, 0xD8]" "[0x01, 0xFF, 0xC0, 0x02]"]
  by (simp add: frame_empty_payload_def not_a_frame_def)

section \<open>Dimensions of zero\<close>

text \<open>
  Claim C10. There is a frame whose SOF0 segment declares height 0 and width 0 and that
  a fresh writer accepts as its first frame. Afterwards \<^verbatim>\<open>getDimensions\<close> returns
  \<open>(0, 0)\<close>, which is also what a fresh writer, which has accepted no frame, returns:
  a report of \<open>(0, 0)\<close> does not say that no frame was accepted.
\<close>

theorem zero_dimension_frame_accepted:
  "\<exists>f w'. scan f (vsize f - 8) 0 = Inr (Some (0, 0)) \<and>
     addFrame fresh f = Inr (True, w') \<and> output_stream w' = f \<and>
     getDimensions w' = (0, 0) \<and> getDimensions fresh = (0, 0)"
proof (intro exI conjI)
  show "scan frame_0x0 (vsize frame_0x0 - 8) 0 = Inr (Some (0, 0))" by code_simp
  show "output_stream (fresh\<lparr>first_frame := False, width := 0, height := 0,
        output_stream := frame_0x0\<rparr>) = frame_0x0"
    by simp
  show "addFrame fresh frame_0x0 =
      Inr (True, fresh\<lparr>first_frame := False, width := 0, height := 0,
        output_stream := frame_0x0\<rparr>)"
    by code_simp
  show "getDimensions (fresh\<lparr>first_frame := False, width := 0, height := 0,
        output_stream := frame_0x0\<rparr>) = (0, 0)"
    by (simp add: getDimensions_def)
  show "getDimensions fresh = (0, 0)"
    by (simp add: getDimensions_def fresh_def)
qed

section \<open>The dimension scan\<close>

text \<open>
  Claim C5. When the first occurrence of the byte pair \<^verbatim>\<open>0xFF 0xC0\<close>, scanning forward
  from offset 0, is at an offset \<open>i\<close> inside the scan window (\<open>i + 8\<close> is still an
  index of the buffer), the scan yields \<open>height = buffer[i+5] * 256 + buffer[i+6]\<close> and
  \<open>width = buffer[i+7] * 256 + buffer[i+8]\<close>, and \<^verbatim>\<open>validateDimensions\<close> stores these
  in a fresh writer. The size of a vector is a \<^verbatim>\<open>size_t\<close>, hence below \<open>2 ^ 64\<close>.
\<close>

theorem first_SOF0_gives_dimensions:
  assumes "length v < 2 ^ 64"
    and "i + 8 < length v"
    and "v ! i = 0xFF \<and> v ! (i + 1) = 0xC0"
    and "\<forall>j<i. \<not> (v ! j = 0xFF \<and> v ! (j + 1) = 0xC0)"
  shows "\<exists>frame_width frame_height.
     scan v (vsize v - 8) 0 = Inr (Some (frame_width, frame_height)) \<and>
     unat frame_height = unat (v ! (i + 5)) * 256 + unat (v ! (i + 6)) \<and>
     unat frame_width = unat (v ! (i + 7)) * 256 + unat (v ! (i + 8)) \<and>
     validateDimensions fresh v =
       Inr (True, fresh\<lparr>first_frame := False, width := frame_width, height := frame_height\<rparr>)"
proof -
  let ?w = "be16 (v ! (i + 7)) (v ! (i + 8))" and ?h = "be16 (v ! (i + 5)) (v ! (i + 6))"
  from assms(1,2) have bound: "unat (vsize v - 8) = length v - 8"
    by (simp add: unat_bound_long)
  have "scan v (vsize v - 8) (word_of_nat 0) =
      (case frame_dims v (word_of_nat i) of Inl e \<Rightarrow> Inl e | Inr d \<Rightarrow> Inr (Some d))"
    using assms(2-4) bound by (intro scan_first_match) (simp_all add: is_SOF0_def)
  then have s: "scan v (vsize v - 8) 0 = Inr (Some (?w, ?h))"
    using assms(1,2) by (simp add: frame_dims_value)
  moreover have "validateDimensions fresh v =
      Inr (True, fresh\<lparr>first_frame := False, width := ?w, height := ?h\<rparr>)"
    by (simp add: validateDimensions_def s fresh_def)
  ultimately show ?thesis
    by (simp add: unat_be16)
qed

theorem first_SOF0_gives_dimensions_witness:
  "scan frame_640x480_b (vsize frame_640x480_b - 8) 0 = Inr (Some (640, 480)) \<and>
   unat (frame_640x480_b ! 7) * 256 + unat (frame_640x480_b ! 8) = 480 \<and>
   unat (frame_640x480_b ! 9) * 256 + unat (frame_640x480_b ! 10) = 640"
proof -
  have "length frame_640x480_b < 2 ^ 64" "2 + 8 < length frame_640x480_b"
    "frame_640x480_b ! 2 = 0xFF \<and> frame_640x480_b ! (2 + 1) = 0xC0"
    by (simp_all add: frame_640x480_b_def)
  moreover have "\<forall>j<2. \<not> (frame_640x480_b ! j = 0xFF \<and> frame_640x480_b ! (j + 1) = 0xC0)"
    by (auto simp add: frame_640x480_b_def less_2_cases_iff)
  ultimately obtain fw fh where
    "scan frame_640x480_b (vsize frame_640x480_b - 8) 0 = Inr (Some (fw, fh))"
    and "unat fh = unat (frame_640x480_b ! (2 + 5)) * 256 + unat (frame_640x480_b ! (2 + 6))"
    and "unat fw = unat (frame_640x480_b ! (2 + 7)) * 256 + unat (frame_640x480_b ! (2 + 8))"
    using first_SOF0_gives_dimensions [of frame_640x480_b 2] by blast
  moreover have "unat (frame_640x480_b ! 7) * 256 + unat (frame_640x480_b ! 8) = 480"
    "unat (frame_640x480_b ! 9) * 256 + unat (frame_640x480_b ! 10) = 640"
    by (simp_all add: frame_640x480_b_def)
  ultimately show ?thesis
    by (simp add: word_unat_eq_iff)
qed

section \<open>Valid frames shorter than 8 bytes\<close>

text \<open>
  Claim C1 says that the scan of a buffer that passed \<^verbatim>\<open>isValidJPEG\<close> stops before the
  last 8 bytes and reads no index outside the buffer, also for the lengths 4 to 8. The
  code does otherwise: for a valid buffer of fewer than 8 bytes \<^verbatim>\<open>jpeg_data.size() - 8\<close>
  wraps around to a bound above \<open>2 ^ 64 - 8\<close>, the loop runs past the last byte, and
  \<^verbatim>\<open>validateDimensions\<close> reads out of bounds. (From 8 bytes on every read is in range:
  lemmas \<open>scan_in_range\<close> and \<open>valid_frame_out_of_bounds_iff\<close>.)
\<close>

theorem short_valid_frame_read_out_of_bounds:
  "isValidJPEG jpeg_data \<Longrightarrow> length jpeg_data < 8 \<Longrightarrow>
     validateDimensions w jpeg_data = Inl OutOfBounds"
  by (simp add: validateDimensions_def scan_short_frame)

theorem short_valid_frame_read_out_of_bounds_witness:
  "isValidJPEG frame_empty_payload \<and> length frame_empty_payload = 4 \<and>
   validateDimensions fresh frame_empty_payload = Inl OutOfBounds"
proof -
  have "isValidJPEG frame_empty_payload" "length frame_empty_payload < 8"
    by (simp_all add: frame_empty_payload_def isValidJPEG_def)
  then show ?thesis
    using short_valid_frame_read_out_of_bounds [of frame_empty_payload fresh]
    by (simp add: frame_empty_payload_def)
qed

text \<open>
  Claim C8 says that every buffer with start and end codes and no SOF0 marker in the
  scan window is rejected by \<^verbatim>\<open>addFrame\<close>, with nothing written. For such a buffer of
  fewer than 8 bytes the code does not reject: the call reads out of bounds, by the
  same wrapped loop bound as in claim C1. (From 8 bytes on the buffer is rejected and
  the writer keeps its output and dimensions: lemma \<open>addFrame_no_marker\<close>.)
\<close>

theorem short_valid_frame_not_rejected:
  "isValidJPEG jpeg_data \<Longrightarrow> length jpeg_data < 8 \<Longrightarrow> addFrame w jpeg_data = Inl OutOfBounds"
  by (simp add: addFrame_def validateDimensions_def scan_short_frame)

theorem short_valid_frame_not_rejected_witness:
  "isValidJPEG frame_empty_payload \<and>
   \<not> (\<exists>j<length frame_empty_payload - 1. is_SOF0 frame_empty_payload j) \<and>
   addFrame fresh frame_empty_payload = Inl OutOfBounds"
proof -
  have "isValidJPEG frame_empty_payload" "length frame_empty_payload < 8"
    by (simp_all add: frame_empty_payload_def isValidJPEG_def)
  moreover have "\<forall>j<length frame_empty_payload - 1. \<not> is_SOF0 frame_empty_payload j"
    by (auto simp add: frame_empty_payload_def is_SOF0_def less_Suc_eq numeral_3_eq_3)
  then have "\<not> (\<exists>j<length frame_empty_payload - 1. is_SOF0 frame_empty_payload j)"
    by blast
  ultimately show ?thesis
    using short_valid_frame_not_rejected [of frame_empty_payload fresh]
    by simp
qed

section \<open>Rejected frames\<close>

text \<open>
  Claim C3 says that \<^verbatim>\<open>addFrame\<close> returns a typed result that tells three reject
  reasons apart. The code returns a \<^verbatim>\<open>bool\<close> and writes one line to \<^verbatim>\<open>std::cerr\<close>, and
  the line is the same for a frame without SOF0 marker and for a frame of other
  dimensions: offered to a writer holding 640 by 480, the frame without marker and
  the 320 by 240 frame give the same returned value and the same writer and log.
\<close>

theorem rejection_reasons_not_distinguished:
  "isValidJPEG frame_no_marker \<and>
   scan frame_no_marker (vsize frame_no_marker - 8) 0 = Inr None \<and>
   isValidJPEG frame_320x240 \<and>
   scan frame_320x240 (vsize frame_320x240 - 8) 0 = Inr (Some (320, 240)) \<and>
   getDimensions writer_640x480 = (640, 480) \<and>
   addFrame writer_640x480 frame_no_marker = addFrame writer_640x480 frame_320x240"
proof -
  have a: "isValidJPEG frame_no_marker" "isValidJPEG frame_320x240"
    by (simp_all add: isValidJPEG_def frame_no_marker_def frame_320x240_def)
  have b: "scan frame_no_marker (vsize frame_no_marker - 8) 0 = Inr None"
    "scan frame_320x240 (vsize frame_320x240 - 8) 0 = Inr (Some (320, 240))"
    by code_simp+
  show ?thesis
    by (simp add: a b addFrame_def validateDimensions_def getDimensions_def
        writer_640x480_def fresh_def)
qed

text \<open>
  Claim C3 as the code has it. \<^verbatim>\<open>addFrame\<close> returns \<open>False\<close> and appends one line to
  \<^verbatim>\<open>std::cerr\<close> in each of three cases: the line says "Invalid JPEG data detected" when
  \<^verbatim>\<open>isValidJPEG\<close> fails; it says "Frame dimensions mismatch or SOF0 marker not found"
  both when the scan ends without a match and when the dimensions found differ from
  the reference of a writer that has one. Every call that returns \<open>False\<close> has appended
  one of the two lines and has changed nothing else. (A scan that leaves the buffer,
  as in claim C1, is not covered.)
\<close>

theorem addFrame_rejections:
  "(\<not> isValidJPEG v \<longrightarrow>
      addFrame w v = Inr (False, w\<lparr>cerr := cerr w @ [''Invalid JPEG data detected'']\<rparr>)) \<and>
   (isValidJPEG v \<and> scan v (vsize v - 8) 0 = Inr None \<longrightarrow>
      addFrame w v = Inr (False,
        w\<lparr>cerr := cerr w @ [''Frame dimensions mismatch or SOF0 marker not found'']\<rparr>)) \<and>
   (isValidJPEG v \<and> scan v (vsize v - 8) 0 = Inr (Some (fw, fh)) \<and> \<not> first_frame w \<and>
    (fw \<noteq> width w \<or> fh \<noteq> height w) \<longrightarrow>
      addFrame w v = Inr (False,
        w\<lparr>cerr := cerr w @ [''Frame dimensions mismatch or SOF0 marker not found'']\<rparr>)) \<and>
   (addFrame w v = Inr (False, w') \<longrightarrow>
      w' = w\<lparr>cerr := cerr w @ [''Invalid JPEG data detected'']\<rparr> \<or>
      w' = w\<lparr>cerr := cerr w @ [''Frame dimensions mismatch or SOF0 marker not found'']\<rparr>)"
  by (auto simp add: addFrame_def validateDimensions_def split: sum.splits option.splits if_splits)

theorem addFrame_rejections_witness:
  "addFrame writer_640x480 not_a_frame =
     Inr (False, writer_640x480\<lparr>cerr := [''Invalid JPEG data detected'']\<rparr>) \<and>
   addFrame writer_640x480 frame_no_marker =
     Inr (False, writer_640x480\<lparr>cerr := [''Frame dimensions mismatch or SOF0 marker not found'']\<rparr>) \<and>
   addFrame writer_640x480 frame_320x240 =
     Inr (False, writer_640x480\<lparr>cerr := [''Frame dimensions mismatch or SOF0 marker not found'']\<rparr>)"
proof -
  have a: "\<not> isValidJPEG not_a_frame" "isValidJPEG frame_no_marker" "isValidJPEG frame_320x240"
    by (simp_all add: isValidJPEG_def not_a_frame_def frame_no_marker_def frame_320x240_def)
  have b: "scan frame_no_marker (vsize frame_no_marker - 8) 0 = Inr None"
    "scan frame_320x240 (vsize frame_320x240 - 8) 0 = Inr (Some (320, 240))"
    by code_simp+
  have c: "\<not> first_frame writer_640x480" "width writer_640x480 = 640"
    "height writer_640x480 = 480" "cerr writer_640x480 = []"
    by (simp_all add: writer_640x480_def fresh_def)
  show ?thesis
    using addFrame_rejections [of not_a_frame writer_640x480]
      addFrame_rejections [of frame_no_marker writer_640x480]
      addFrame_rejections [of frame_320x240 writer_640x480 320 240]
    by (simp add: a b c)
qed

text \<open>
  Claim C7 says that a frame whose dimensions differ from the reference makes
  \<^verbatim>\<open>addFrame\<close> return the reason \<^verbatim>\<open>DimensionMismatch\<close>. The code has no such value:
  offered to a writer holding 320 by 240, the 640 by 480 frame gives \<open>False\<close> and a
  line on \<^verbatim>\<open>std::cerr\<close>, and that is also, to the letter, what the frame without SOF0
  marker gives.
\<close>

theorem mismatch_outcome_is_no_marker_outcome:
  "scan frame_640x480 (vsize frame_640x480 - 8) 0 = Inr (Some (640, 480)) \<and>
   scan frame_no_marker (vsize frame_no_marker - 8) 0 = Inr None \<and>
   addFrame (fresh\<lparr>first_frame := False, width := 320, height := 240\<rparr>) frame_640x480 =
     Inr (False, fresh\<lparr>first_frame := False, width := 320, height := 240,
       cerr := [''Frame dimensions mismatch or SOF0 marker not found'']\<rparr>) \<and>
   addFrame (fresh\<lparr>first_frame := False, width := 320, height := 240\<rparr>) frame_no_marker =
     Inr (False, fresh\<lparr>first_frame := False, width := 320, height := 240,
       cerr := [''Frame dimensions mismatch or SOF0 marker not found'']\<rparr>)"
proof -
  have a: "isValidJPEG frame_no_marker" "isValidJPEG frame_640x480"
    by (simp_all add: isValidJPEG_def frame_no_marker_def frame_640x480_def)
  have b: "scan frame_no_marker (vsize frame_no_marker - 8) 0 = Inr None"
    "scan frame_640x480 (vsize frame_640x480 - 8) 0 = Inr (Some (640, 480))"
    by code_simp+
  show ?thesis
    by (simp add: a b addFrame_def validateDimensions_def fresh_def)
qed

text \<open>
  Claim C7 as the code has it. When the reference dimensions are set (\<^verbatim>\<open>first_frame\<close>
  is false) and a buffer that passes \<^verbatim>\<open>isValidJPEG\<close> yields dimensions that differ from
  them in width or in height, \<^verbatim>\<open>addFrame\<close> returns the \<^verbatim>\<open>bool\<close> \<open>False\<close> and appends the
  line "Frame dimensions mismatch or SOF0 marker not found" to \<^verbatim>\<open>std::cerr\<close>, which is
  the outcome of a frame without marker too. Nothing else of the writer changes: the
  output is the same byte sequence as before (so its length is unchanged and nothing
  of the frame is written), and the reference dimensions are unchanged.
\<close>

theorem mismatch_rejected_before_write:
  assumes "isValidJPEG jpeg_data"
    and "\<not> first_frame w"
    and "scan jpeg_data (vsize jpeg_data - 8) 0 = Inr (Some (frame_width, frame_height))"
    and "frame_width \<noteq> width w \<or> frame_height \<noteq> height w"
  shows "\<exists>w'. addFrame w jpeg_data = Inr (False, w') \<and>
     w' = w\<lparr>cerr := cerr w @ [''Frame dimensions mismatch or SOF0 marker not found'']\<rparr> \<and>
     output_stream w' = output_stream w \<and>
     length (output_stream w') = length (output_stream w) \<and>
     getDimensions w' = getDimensions w \<and>
     first_frame w' = first_frame w \<and>
     cerr w' = cerr w @ [''Frame dimensions mismatch or SOF0 marker not found'']"
  using assms by (auto simp add: addFrame_def validateDimensions_def getDimensions_def)

theorem mismatch_rejected_before_write_witness:
  "addFrame writer_640x480 frame_320x240 =
     Inr (False, writer_640x480\<lparr>cerr := [''Frame dimensions mismatch or SOF0 marker not found'']\<rparr>) \<and>
   output_stream (writer_640x480\<lparr>cerr := [''Frame dimensions mismatch or SOF0 marker not found'']\<rparr>) = [] \<and>
   getDimensions (writer_640x480\<lparr>cerr := [''Frame dimensions mismatch or SOF0 marker not found'']\<rparr>) = (640, 480)"
proof -
  have "isValidJPEG frame_320x240"
    by (simp add: isValidJPEG_def frame_320x240_def)
  moreover have "scan frame_320x240 (vsize frame_320x240 - 8) 0 = Inr (Some (320, 240))"
    by code_simp
  moreover have "\<not> first_frame writer_640x480" "(320 :: uint32_t) \<noteq> width writer_640x480
      \<or> (240 :: uint32_t) \<noteq> height writer_640x480"
    by (simp_all add: writer_640x480_def fresh_def)
  ultimately obtain w' where "addFrame writer_640x480 frame_320x240 = Inr (False, w')"
    and "output_stream w' = output_stream writer_640x480"
    and "getDimensions w' = getDimensions writer_640x480"
    and "first_frame w' = first_frame writer_640x480"
    and "cerr w' = cerr writer_640x480 @ [''Frame dimensions mismatch or SOF0 marker not found'']"
    using mismatch_rejected_before_write [of frame_320x240 writer_640x480 320 240] by blast
  then show ?thesis
    by (simp add: addFrame_def validateDimensions_def writer_640x480_def fresh_def getDimensions_def)
qed

section \<open>The state of the writer\<close>

text \<open>
  Claim C9 says that the dimension extractor is a pure function of its buffer, without
  side effects or hidden state. \<^verbatim>\<open>validateDimensions\<close> is not: on a fresh writer the
  320 by 240 frame is answered \<open>True\<close> and the call stores the dimensions and clears
  \<^verbatim>\<open>first_frame\<close>; on a writer holding 640 by 480 the same buffer is answered \<open>False\<close>.
\<close>

theorem validateDimensions_writer_dependent:
  "validateDimensions fresh frame_320x240 =
     Inr (True, fresh\<lparr>first_frame := False, width := 320, height := 240\<rparr>) \<and>
   fresh\<lparr>first_frame := False, width := 320, height := 240\<rparr> \<noteq> fresh \<and>
   validateDimensions writer_640x480 frame_320x240 = Inr (False, writer_640x480)"
proof -
  have "scan frame_320x240 (vsize frame_320x240 - 8) 0 = Inr (Some (320, 240))"
    by code_simp
  then show ?thesis
    by (simp add: validateDimensions_def fresh_def writer_640x480_def)
qed

text \<open>
  Claim C9 as the code has it. The answer of \<^verbatim>\<open>validateDimensions\<close> depends on the
  writer and its first match changes the writer; but whenever a call returns, a second
  call on the same buffer right after it returns the same answer and changes nothing
  more.
\<close>

theorem validateDimensions_twice:
  "validateDimensions w jpeg_data = Inr (ok, w') \<Longrightarrow>
     validateDimensions w' jpeg_data = Inr (ok, w')"
  by (auto simp add: validateDimensions_def split: sum.splits option.splits if_splits)

theorem validateDimensions_twice_witness:
  "validateDimensions fresh frame_640x480 =
     Inr (True, fresh\<lparr>first_frame := False, width := 640, height := 480\<rparr>) \<and>
   validateDimensions (fresh\<lparr>first_frame := False, width := 640, height := 480\<rparr>) frame_640x480 =
     Inr (True, fresh\<lparr>first_frame := False, width := 640, height := 480\<rparr>)"
proof -
  have "scan frame_640x480 (vsize frame_640x480 - 8) 0 = Inr (Some (640, 480))"
    by code_simp
  then have "validateDimensions fresh frame_640x480 =
     Inr (True, fresh\<lparr>first_frame := False, width := 640, height := 480\<rparr>)"
    by (simp add: validateDimensions_def fresh_def)
  then show ?thesis
    using validateDimensions_twice [of fresh frame_640x480 True
        "fresh\<lparr>first_frame := False, width := 640, height := 480\<rparr>"]
    by simp
qed

text \<open>
  Claim C6. Over a sequence of calls of \<^verbatim>\<open>addFrame\<close> on one writer the reference
  dimensions are written at most once. Starting from a writer without reference
  (\<^verbatim>\<open>first_frame\<close> true): as long as no frame was accepted the dimensions are untouched
  and the reference stays unset; otherwise they are the pair that the scan yields on
  the first accepted frame, whatever calls came later. Starting from a writer with a
  reference, no sequence of calls changes it. And a fresh writer accepts any valid
  frame on which the scan yields dimensions, (640, 480) for one, and holds them
  afterwards.
\<close>

theorem reference_dimensions_set_once:
  "(addFrames w fs = Inr (oks, w') \<longrightarrow>
     (if first_frame w then
        (case find snd (zip fs oks) of
           None \<Rightarrow> first_frame w' \<and> getDimensions w' = getDimensions w
         | Some (f, ok) \<Rightarrow>
             \<not> first_frame w' \<and> scan f (vsize f - 8) 0 = Inr (Some (getDimensions w')))
      else \<not> first_frame w' \<and> getDimensions w' = getDimensions w)) \<and>
   (isValidJPEG jpeg_data \<and> scan jpeg_data (vsize jpeg_data - 8) 0 = Inr (Some dims) \<longrightarrow>
     (\<exists>w1. addFrame fresh jpeg_data = Inr (True, w1) \<and> \<not> first_frame w1 \<and>
        getDimensions w1 = dims))"
proof (intro conjI impI)
  assume "addFrames w fs = Inr (oks, w')"
  then show "if first_frame w then
        (case find snd (zip fs oks) of
           None \<Rightarrow> first_frame w' \<and> getDimensions w' = getDimensions w
         | Some (f, ok) \<Rightarrow>
             \<not> first_frame w' \<and> scan f (vsize f - 8) 0 = Inr (Some (getDimensions w')))
      else \<not> first_frame w' \<and> getDimensions w' = getDimensions w"
    by (rule addFrames_dimensions)
next
  assume "isValidJPEG jpeg_data \<and> scan jpeg_data (vsize jpeg_data - 8) 0 = Inr (Some dims)"
  then show "\<exists>w1. addFrame fresh jpeg_data = Inr (True, w1) \<and> \<not> first_frame w1 \<and>
        getDimensions w1 = dims"
    by (cases dims) (simp add: addFrame_def validateDimensions_def fresh_def getDimensions_def)
qed

theorem reference_dimensions_set_once_witness:
  "(\<exists>w'. addFrame fresh frame_640x480 = Inr (True, w') \<and> getDimensions w' = (640, 480)) \<and>
   (\<exists>w'. addFrames fresh [not_a_frame, frame_640x480, frame_320x240, frame_640x480_b] =
      Inr ([False, True, False, True], w') \<and> getDimensions w' = (640, 480)) \<and>
   (\<exists>w'. addFrames writer_640x480 [frame_320x240, not_a_frame, frame_640x480] =
      Inr ([False, False, True], w') \<and> getDimensions w' = (640, 480))"
proof -
  have v: "isValidJPEG frame_640x480" "isValidJPEG frame_640x480_b" "\<not> isValidJPEG not_a_frame"
    "isValidJPEG frame_320x240"
    by (simp_all add: isValidJPEG_def frame_640x480_def frame_640x480_b_def not_a_frame_def
        frame_320x240_def)
  have s: "scan frame_640x480 (vsize frame_640x480 - 8) 0 = Inr (Some (640, 480))"
    "scan frame_640x480_b (vsize frame_640x480_b - 8) 0 = Inr (Some (640, 480))"
    "scan frame_320x240 (vsize frame_320x240 - 8) 0 = Inr (Some (320, 240))"
    by code_simp+
  obtain w2 where 2: "addFrames fresh [not_a_frame, frame_640x480, frame_320x240, frame_640x480_b] =
      Inr ([False, True, False, True], w2)"
    by (simp add: v s addFrame_def validateDimensions_def fresh_def)
  obtain w3 where 3: "addFrames writer_640x480 [frame_320x240, not_a_frame, frame_640x480] =
      Inr ([False, False, True], w3)"
    by (simp add: v s addFrame_def validateDimensions_def fresh_def writer_640x480_def)
  have f: "first_frame fresh" "\<not> first_frame writer_640x480"
    "getDimensions writer_640x480 = (640, 480)"
    by (simp_all add: fresh_def writer_640x480_def getDimensions_def)
  note run2 = reference_dimensions_set_once
    [of fresh "[not_a_frame, frame_640x480, frame_320x240, frame_640x480_b]"
      "[False, True, False, True]" w2 frame_640x480 "(640, 480)"]
  note run3 = reference_dimensions_set_once
    [of writer_640x480 "[frame_320x240, not_a_frame, frame_640x480]"
      "[False, False, True]" w3 frame_640x480 "(640, 480)"]
  from run2 v(1) s(1) have "\<exists>w'. addFrame fresh frame_640x480 = Inr (True, w') \<and>
      getDimensions w' = (640, 480)"
    by blast
  moreover from run2 [THEN conjunct1, THEN mp, OF 2] f(1) s(1)
  have "getDimensions w2 = (640, 480)"
    by simp
  moreover from run3 [THEN conjunct1, THEN mp, OF 3] f(2,3)
  have "getDimensions w3 = (640, 480)"
    by simp
  ultimately show ?thesis
    using 2 3 by blast
qed

section \<open>The output stream\<close>

text \<open>
  Claim C2 says that for every sequence of buffers offered to \<^verbatim>\<open>addFrame\<close> the output
  afterwards is the concatenation of the accepted buffers, a rejected buffer adding
  nothing and not keeping later ones from being accepted. The code does otherwise as
  soon as one of the buffers has start and end codes and fewer than 8 bytes: the call
  for that buffer reads out of bounds, by the wrapped loop bound of claim C1, and the
  run has no outcome, whatever comes before and after it. (For the other sequences the
  claim holds: lemmas \<open>addFrames_returns\<close>, \<open>addFrames_output\<close>,
  \<open>addFrame_rejected_keeps_writer\<close>, \<open>addFrame_accepts\<close>,
  \<open>same_dimension_frames_in_order\<close> and \<open>invalid_frame_between\<close>.)
\<close>

theorem short_valid_frame_aborts_run:
  "f \<in> set fs \<Longrightarrow> isValidJPEG f \<Longrightarrow> length f < 8 \<Longrightarrow> addFrames w fs = Inl OutOfBounds"
proof (induction fs arbitrary: w)
  case Nil
  then show ?case by simp
next
  case (Cons g fs)
  show ?case
  proof (cases "addFrame w g")
    case (Inl e)
    then have "e = OutOfBounds" by (rule addFrame_error_only)
    with Inl show ?thesis by simp
  next
    case (Inr r)
    obtain ok w1 where r: "r = (ok, w1)" by (cases r)
    from Inr Cons.prems(2,3) have "f \<noteq> g"
      using addFrame_short_frame [of f w] by auto
    with Cons.prems(1) have "f \<in> set fs" by simp
    then have "addFrames w1 fs = Inl OutOfBounds"
      using Cons.prems(2,3) by (rule Cons.IH)
    with Inr r show ?thesis by simp
  qed
qed

theorem short_valid_frame_aborts_run_witness:
  "isValidJPEG frame_640x480 \<and> isValidJPEG frame_empty_payload \<and>
   isValidJPEG frame_640x480_b \<and>
   addFrames fresh [frame_640x480, frame_empty_payload, frame_640x480_b] = Inl OutOfBounds"
proof -
  have v: "isValidJPEG frame_640x480" "isValidJPEG frame_empty_payload"
    "isValidJPEG frame_640x480_b"
    by (simp_all add: isValidJPEG_def frame_640x480_def frame_empty_payload_def
        frame_640x480_b_def)
  have "frame_empty_payload \<in> set [frame_640x480, frame_empty_payload, frame_640x480_b]"
    "length frame_empty_payload < 8"
    by (simp_all add: frame_empty_payload_def)
  with v show ?thesis
    using short_valid_frame_aborts_run
      [of frame_empty_payload "[frame_640x480, frame_empty_payload, frame_640x480_b]" fresh]
    by blast
qed

end
